theory Spec2Isabelle
  imports Main "HOL-Library.Multiset"
begin

section \<open>Raw values\<close>

text \<open>
  The values that flow through \<^verbatim>\<open>sanitizeRowValues\<close> have the TypeScript type
  \<^verbatim>\<open>unknown\<close>. The embedding covers the scalar values a table cell holds: \<^verbatim>\<open>undefined\<close>,
  \<^verbatim>\<open>null\<close>, booleans, numbers and strings. A number is either \<open>Num n\<close>, an integer
  \<open>n\<close> in the range that a double holds exactly (its magnitude at most \<open>2^53 - 1\<close>), or
  \<open>NaN\<close>, the one number that is falsy without being zero and that is not strictly
  equal to itself. Fractions, infinities, bigints, symbols and objects are outside the
  embedding.
\<close>

datatype raw = Undefined | Null | Bool bool | Num int | NaN | Str string

datatype js_type = T_undefined | T_object | T_boolean | T_number | T_string

text \<open>The \<^verbatim>\<open>typeof\<close> operator; \<^verbatim>\<open>typeof null\<close> is \<^verbatim>\<open>'object'\<close>.\<close>

fun typeof :: "raw \<Rightarrow> js_type" where
  "typeof Undefined = T_undefined"
| "typeof Null = T_object"
| "typeof (Bool b) = T_boolean"
| "typeof (Num n) = T_number"
| "typeof NaN = T_number"
| "typeof (Str s) = T_string"

text \<open>\<^verbatim>\<open>Boolean(v)\<close>: the truthiness of a value.\<close>

fun Boolean :: "raw \<Rightarrow> bool" where
  "Boolean Undefined = False"
| "Boolean Null = False"
| "Boolean (Bool b) = b"
| "Boolean (Num n) = (n \<noteq> 0)"
| "Boolean NaN = False"
| "Boolean (Str s) = (s \<noteq> [])"

text \<open>Strict equality \<^verbatim>\<open>===\<close>, the comparison \<^verbatim>\<open>indexOf\<close> uses: \<^verbatim>\<open>NaN === NaN\<close> is false.\<close>

definition strict_equals :: "raw \<Rightarrow> raw \<Rightarrow> bool" where
  "strict_equals a b = (a = b \<and> a \<noteq> NaN)"

subsection \<open>Conversion to strings\<close>

text \<open>The character of a decimal digit; \<open>nat_to_string\<close> calls it below ten only.\<close>

definition digit :: "nat \<Rightarrow> char" where
  "digit d = ''0123456789'' ! d"

text \<open>The decimal numeral of a natural number, as a template literal prints an index.\<close>

fun nat_to_string :: "nat \<Rightarrow> string" where
  "nat_to_string n =
     (if n < 10 then [digit n] else nat_to_string (n div 10) @ [digit (n mod 10)])"

declare nat_to_string.simps [simp del]

definition int_to_string :: "int \<Rightarrow> string" where
  "int_to_string i = (if i < 0 then CHR ''-'' # nat_to_string (nat (- i)) else nat_to_string (nat i))"

text \<open>
  \<^verbatim>\<open>String(v)\<close>. A number of the embedding, an integer of magnitude below \<open>2^53\<close>, prints
  as its decimal numeral; exponent notation starts at \<open>10^21\<close>, beyond the numbers that
  \<open>Num\<close> stands for.
\<close>

fun String :: "raw \<Rightarrow> string" where
  "String Undefined = ''undefined''"
| "String Null = ''null''"
| "String (Bool b) = (if b then ''true'' else ''false'')"
| "String (Num n) = int_to_string n"
| "String NaN = ''NaN''"
| "String (Str s) = s"

section \<open>The option-list sanitizer\<close>

subsection \<open>Array operations\<close>

text \<open>
  \<^verbatim>\<open>array.indexOf(item)\<close>: the index of the first element strictly equal to \<open>item\<close>,
  or \<open>-1\<close> when there is none.
\<close>

fun indexOf_from :: "raw list \<Rightarrow> raw \<Rightarrow> int \<Rightarrow> int" where
  "indexOf_from [] item k = - 1"
| "indexOf_from (x # xs) item k =
     (if strict_equals x item then k else indexOf_from xs item (k + 1))"

definition indexOf :: "raw list \<Rightarrow> raw \<Rightarrow> int" where
  "indexOf array item = indexOf_from array item 0"

text \<open>
  \<^verbatim>\<open>array.filter((item, index, array) => ...)\<close>: the callback sees each element with its
  index and the whole array; the result is a new array.
\<close>

definition filter_indexed :: "('a \<Rightarrow> nat \<Rightarrow> 'a list \<Rightarrow> bool) \<Rightarrow> 'a list \<Rightarrow> 'a list" where
  "filter_indexed p array =
     map fst (filter (\<lambda>(item, index). p item index array) (zip array [0..<length array]))"

text \<open>
  \<^verbatim>\<open>array.sort(compare)\<close>. ECMAScript requires the sort to be stable and to return a
  permutation; it fixes the order only when the comparator is consistent on the
  elements, and every stable sort then returns the same array. For a comparator that is
  not consistent the order is left to the implementation, and engines differ: one that
  inserts by binary search can move a value past another that compares as equal to it.
  The embedding takes the linear insertion sort: each element in turn moves left past the
  elements of the sorted prefix that compare greater than it. \<open>insert_into\<close> holds that
  prefix in reverse, its last element first. On elements that the comparator orders
  consistently, as it does numbers alone and strings alone, the result is that of every
  engine; on a sequence that mixes numbers and strings it is one of the results the
  language admits, and only its being a permutation is common to all. The array sorted in
  place is the fresh one that \<^verbatim>\<open>filter\<close> returned, so no caller sees the mutation.
\<close>

fun insert_into :: "('a \<Rightarrow> 'a \<Rightarrow> int) \<Rightarrow> 'a \<Rightarrow> 'a list \<Rightarrow> 'a list" where
  "insert_into compare x [] = [x]"
| "insert_into compare x (p # ps) =
     (if compare p x > 0 then p # insert_into compare x ps else x # p # ps)"

definition sort_with :: "('a \<Rightarrow> 'a \<Rightarrow> int) \<Rightarrow> 'a list \<Rightarrow> 'a list" where
  "sort_with compare array = rev (foldl (\<lambda>prefix x. insert_into compare x prefix) [] array)"

subsection \<open>sanitizeRowValues\<close>

text \<open>
  \<^verbatim>\<open>String.prototype.localeCompare\<close> is the platform's collation for the default locale.
  It is a parameter of the embedding: a function that returns a negative number, zero or
  a positive number for any two strings.
\<close>

type_synonym collation = "string \<Rightarrow> string \<Rightarrow> int"

text \<open>
  The comparator of the sort step. Two numbers are compared by \<^verbatim>\<open>a - b\<close>, two strings
  by \<^verbatim>\<open>a.localeCompare(b)\<close>, every other pair gives \<open>0\<close>. A difference with \<open>NaN\<close> is
  \<open>NaN\<close>, which the sort reads as \<open>0\<close>.
\<close>

fun compareFn :: "collation \<Rightarrow> raw \<Rightarrow> raw \<Rightarrow> int" where
  "compareFn localeCompare (Num a) (Num b) = a - b"
| "compareFn localeCompare (Str a) (Str b) = localeCompare a b"
| "compareFn localeCompare a b = 0"

text \<open>The second \<^verbatim>\<open>filter\<close>: an element stays when it is the first occurrence of its value.\<close>

definition first_occurrences :: "raw list \<Rightarrow> raw list" where
  "first_occurrences array =
     filter_indexed (\<lambda>item index array. indexOf array item = int index) array"

definition sanitizeRowValues :: "collation \<Rightarrow> raw list \<Rightarrow> raw list" where
  "sanitizeRowValues localeCompare rowValues =
     sort_with (compareFn localeCompare) (first_occurrences (filter Boolean rowValues))"

section \<open>The TableSelectFilter component\<close>

text \<open>
  The component reads a column, the visible rows and a callback that closes the filter
  popup from \<^verbatim>\<open>TableFilterContext\<close>. Each of the three may be absent, and the source
  guards every use with optional chaining. Of the column definition the component uses
  the \<^verbatim>\<open>id\<close>, the \<^verbatim>\<open>filterFn\<close> and \<^verbatim>\<open>meta.filterOptions\<close>, which the interface
  \<^verbatim>\<open>TableSelectColumnMeta\<close> declares as an array of strings; a column without a
  definition is one with none of the three. A row gives the value of a column through
  \<^verbatim>\<open>getValue\<close>; a row without \<^verbatim>\<open>getValue\<close> is one that gives \<^verbatim>\<open>undefined\<close> for every
  column.
\<close>

record TableSelectColumnMeta =
  filterOptions :: "string list"

record ColumnDef =
  columnDef_id :: "string option"
  filterFn :: "string option"
  meta :: "TableSelectColumnMeta option"

type_synonym Row = "string \<Rightarrow> raw"

text \<open>A selection of the choice group: nothing, one value (radio) or several (checkbox).\<close>

datatype choice_value = NoValue | OneValue string | ManyValues "string list"

record TableFilterContext =
  column :: "ColumnDef option"
  rows :: "Row list option"
  setOpen :: bool
  selectField :: choice_value
  multiSelectField :: choice_value

text \<open>An entry of the choice group.\<close>

record Option_item =
  option_id :: string
  option_label :: string
  option_value :: string

text \<open>\<^verbatim>\<open>column?.columnDef?.id\<close>, \<^verbatim>\<open>column?.columnDef?.filterFn\<close> and \<^verbatim>\<open>meta?.filterOptions\<close>\<close>

definition column_id :: "TableFilterContext \<Rightarrow> string option" where
  "column_id ctx = (case column ctx of None \<Rightarrow> None | Some c \<Rightarrow> columnDef_id c)"

definition inputType :: "TableFilterContext \<Rightarrow> string option" where
  "inputType ctx = (case column ctx of None \<Rightarrow> None | Some c \<Rightarrow> filterFn c)"

definition externalRowValues :: "TableFilterContext \<Rightarrow> string list option" where
  "externalRowValues ctx =
     (case column ctx of
        None \<Rightarrow> None
      | Some c \<Rightarrow> (case meta c of None \<Rightarrow> None | Some m \<Rightarrow> Some (filterOptions m)))"

text \<open>
  \<^verbatim>\<open>rows?.length && typeof id === 'string' ? rows.map((i) => i.getValue(id)) : []\<close>
\<close>

definition internalRowValues :: "TableFilterContext \<Rightarrow> raw list" where
  "internalRowValues ctx =
     (case rows ctx of
        None \<Rightarrow> []
      | Some rs \<Rightarrow>
          (case column_id ctx of
             None \<Rightarrow> []
           | Some cid \<Rightarrow> if length rs \<noteq> 0 then map (\<lambda>i. i cid) rs else []))"

text \<open>
  \<^verbatim>\<open>externalRowValues?.length ? sanitizeRowValues(externalRowValues)
     : sanitizeRowValues(internalRowValues)\<close>
\<close>

definition rowValues :: "collation \<Rightarrow> TableFilterContext \<Rightarrow> raw list" where
  "rowValues localeCompare ctx =
     (case externalRowValues ctx of
        None \<Rightarrow> sanitizeRowValues localeCompare (internalRowValues ctx)
      | Some ext \<Rightarrow>
          if length ext \<noteq> 0 then sanitizeRowValues localeCompare (map Str ext)
          else sanitizeRowValues localeCompare (internalRowValues ctx))"

text \<open>A template literal prints an absent value as \<^verbatim>\<open>undefined\<close>.\<close>

definition template :: "string option \<Rightarrow> string" where
  "template v = (case v of None \<Rightarrow> ''undefined'' | Some s \<Rightarrow> s)"

text \<open>
  The callback of \<^verbatim>\<open>rowValues.map((i, index) => ...)\<close>, which builds one entry from a
  value and its index.
\<close>

definition to_option :: "string option \<Rightarrow> raw \<Rightarrow> nat \<Rightarrow> Option_item" where
  "to_option cid i index =
     \<lparr> option_id = template cid @ ''-choice-'' @ nat_to_string index,
       option_label = String i,
       option_value = String i \<rparr>"

definition map_indexed :: "('a \<Rightarrow> nat \<Rightarrow> 'b) \<Rightarrow> 'a list \<Rightarrow> 'b list" where
  "map_indexed f array = map (\<lambda>(i, index). f i index) (zip array [0..<length array])"

definition options :: "collation \<Rightarrow> TableFilterContext \<Rightarrow> Option_item list" where
  "options localeCompare ctx =
     map_indexed (to_option (column_id ctx)) (rowValues localeCompare ctx)"

subsection \<open>Submitting and resetting the form\<close>

text \<open>
  The form state holds the input type and the two fields that the choice group writes,
  one for each selection mode. \<^verbatim>\<open>useFormik\<close> is given
  no validation, so submitting the form always runs \<^verbatim>\<open>onSubmit\<close> and resetting it always
  runs \<^verbatim>\<open>onReset\<close>. What a handler does is the list of calls it makes on the column and on
  \<^verbatim>\<open>setOpen\<close>, in order.
\<close>

record form_values =
  values_inputType :: "string option"
  selectFilter :: choice_value
  multiSelectFilter :: choice_value

datatype field_name = SelectFilter | MultiSelectFilter

datatype effect = SetFilterValue choice_value | SetOpen bool

datatype form_event = Submit | Reset

definition initialValues :: "TableFilterContext \<Rightarrow> form_values" where
  "initialValues ctx =
     \<lparr> values_inputType = inputType ctx,
       selectFilter = selectField ctx,
       multiSelectFilter = multiSelectField ctx \<rparr>"

text \<open>\<^verbatim>\<open>inputType === 'select' ? 'selectFilter' : 'multiSelectFilter'\<close>\<close>

definition fieldName :: "TableFilterContext \<Rightarrow> field_name" where
  "fieldName ctx = (if inputType ctx = Some ''select'' then SelectFilter else MultiSelectFilter)"

fun field_of :: "form_values \<Rightarrow> field_name \<Rightarrow> choice_value" where
  "field_of vs SelectFilter = selectFilter vs"
| "field_of vs MultiSelectFilter = multiSelectFilter vs"

text \<open>\<^verbatim>\<open>v?.length\<close> as a condition: true for a non-empty string or array.\<close>

fun has_length :: "choice_value \<Rightarrow> bool" where
  "has_length NoValue = False"
| "has_length (OneValue s) = (length s \<noteq> 0)"
| "has_length (ManyValues vs) = (length vs \<noteq> 0)"

text \<open>\<^verbatim>\<open>column?.setFilterValue(v)\<close> and \<^verbatim>\<open>setOpen?.(b)\<close>\<close>

definition setFilterValue :: "TableFilterContext \<Rightarrow> choice_value \<Rightarrow> effect list" where
  "setFilterValue ctx v = (case column ctx of None \<Rightarrow> [] | Some c \<Rightarrow> [SetFilterValue v])"

definition call_setOpen :: "TableFilterContext \<Rightarrow> bool \<Rightarrow> effect list" where
  "call_setOpen ctx b = (if setOpen ctx then [SetOpen b] else [])"

definition onSubmit :: "TableFilterContext \<Rightarrow> form_values \<Rightarrow> effect list" where
  "onSubmit ctx vs =
     setFilterValue ctx
       (if has_length (field_of vs (fieldName ctx)) then field_of vs (fieldName ctx)
        else OneValue [])
     @ call_setOpen ctx False"

definition onReset :: "TableFilterContext \<Rightarrow> effect list" where
  "onReset ctx = setFilterValue ctx (OneValue []) @ call_setOpen ctx False"

fun handle :: "TableFilterContext \<Rightarrow> form_values \<Rightarrow> form_event \<Rightarrow> effect list" where
  "handle ctx vs Submit = onSubmit ctx vs"
| "handle ctx vs Reset = onReset ctx"

section \<open>The TextField validity flags\<close>

text \<open>
  Of \<^verbatim>\<open>TextFieldProps\<close> only \<^verbatim>\<open>invalid\<close> and \<^verbatim>\<open>helper\<close> reach the two flags. Both are
  optional, and so is the \<^verbatim>\<open>type\<close> of a helper, which the source compares with the
  string literals \<^verbatim>\<open>'error'\<close> and \<^verbatim>\<open>'valid'\<close>.
\<close>

record FormHelperProps =
  helper_type :: "string option"

record TextFieldProps =
  invalid :: "bool option"
  helper :: "FormHelperProps option"

text \<open>\<^verbatim>\<open>helper?.type\<close>\<close>

definition helper_type_of :: "TextFieldProps \<Rightarrow> string option" where
  "helper_type_of props = (case helper props of None \<Rightarrow> None | Some h \<Rightarrow> helper_type h)"

text \<open>\<^verbatim>\<open>invalid || helper?.type === 'error'\<close>\<close>

definition isInvalid :: "TextFieldProps \<Rightarrow> bool" where
  "isInvalid props =
     (case invalid props of
        Some True \<Rightarrow> True
      | _ \<Rightarrow> helper_type_of props = Some ''error'')"

text \<open>\<^verbatim>\<open>!invalid && helper?.type === 'valid'\<close>\<close>

definition isValid :: "TextFieldProps \<Rightarrow> bool" where
  "isValid props =
     (case invalid props of
        Some True \<Rightarrow> False
      | _ \<Rightarrow> helper_type_of props = Some ''valid'')"

section \<open>Notions used to state the properties\<close>

text \<open>
  The array that the component hands to \<^verbatim>\<open>sanitizeRowValues\<close>: the external filter
  options when there are any, the values of the visible rows otherwise.
\<close>

definition input_values :: "TableFilterContext \<Rightarrow> raw list" where
  "input_values ctx =
     (case externalRowValues ctx of
        None \<Rightarrow> internalRowValues ctx
      | Some ext \<Rightarrow> if length ext \<noteq> 0 then map Str ext else internalRowValues ctx)"

text \<open>
  The derivation of the options from a sequence of raw values, for a column id:
  \<^verbatim>\<open>sanitizeRowValues\<close> followed by the projecting \<^verbatim>\<open>map\<close> of the component.
\<close>

definition derivation :: "collation \<Rightarrow> string option \<Rightarrow> raw list \<Rightarrow> Option_item list" where
  "derivation localeCompare cid raws =
     map_indexed (to_option cid) (sanitizeRowValues localeCompare raws)"

text \<open>
  Deduplication as the specification words it: keep the first occurrence of each value
  and drop the later ones.
\<close>

fun keep_first :: "'a list \<Rightarrow> 'a list" where
  "keep_first [] = []"
| "keep_first (x # xs) = x # keep_first (removeAll x xs)"

text \<open>Every two values of the same type are in the order of the comparator.\<close>

definition same_type_pairs_ordered :: "collation \<Rightarrow> raw list \<Rightarrow> bool" where
  "same_type_pairs_ordered localeCompare ys =
     sorted_wrt (\<lambda>v w. typeof v \<noteq> typeof w \<or> compareFn localeCompare v w \<le> 0) ys"

text \<open>The value of a decimal digit.\<close>

definition digit_value :: "char \<Rightarrow> nat" where
  "digit_value c = of_char c - 48"

text \<open>
  What the platform promises of \<^verbatim>\<open>localeCompare\<close>: it never orders two strings both ways
  round, and its order is transitive.
\<close>

definition consistent_collation :: "collation \<Rightarrow> bool" where
  "consistent_collation localeCompare =
     ((\<forall>a b. localeCompare a b > 0 \<longrightarrow> localeCompare b a \<le> 0)
      \<and> (\<forall>a b c. localeCompare a b \<le> 0 \<and> localeCompare b c \<le> 0 \<longrightarrow> localeCompare a c \<le> 0))"

text \<open>
  A collation to run the properties on: strings compared character by character, by
  character code. On words of lower-case ASCII letters it orders as the usual locales do.
\<close>

fun char_code_compare :: "string \<Rightarrow> string \<Rightarrow> int" where
  "char_code_compare [] [] = 0"
| "char_code_compare [] (y # ys) = - 1"
| "char_code_compare (x # xs) [] = 1"
| "char_code_compare (x # xs) (y # ys) =
     (if (of_char x :: nat) < of_char y then - 1
      else if (of_char y :: nat) < of_char x then 1
      else char_code_compare xs ys)"

text \<open>
  A context to run the properties on: a column \<^verbatim>\<open>status\<close> with single selection and no
  external options, and four visible rows.
\<close>

definition sample_context :: TableFilterContext where
  "sample_context =
     \<lparr> column = Some \<lparr> columnDef_id = Some ''status'', filterFn = Some ''select'', meta = None \<rparr>,
       rows = Some [\<lambda>c. Str ''open'', \<lambda>c. Str ''closed'', \<lambda>c. Null, \<lambda>c. Str ''open''],
       setOpen = True,
       selectField = NoValue,
       multiSelectField = NoValue \<rparr>"

text \<open>The same column with external filter options.\<close>

definition external_context :: TableFilterContext where
  "external_context =
     \<lparr> column = Some \<lparr> columnDef_id = Some ''status'', filterFn = Some ''multiSelect'',
                       meta = Some \<lparr> filterOptions = [''b'', ''a'', ''b''] \<rparr> \<rparr>,
       rows = Some [\<lambda>c. Str ''open'', \<lambda>c. Str ''closed''],
       setOpen = True,
       selectField = NoValue,
       multiSelectField = NoValue \<rparr>"

section \<open>Deduplication\<close>

lemma set_keep_first: "set (keep_first xs) = set xs"
  by (induction xs rule: keep_first.induct) auto

lemma distinct_keep_first: "distinct (keep_first xs)"
  by (induction xs rule: keep_first.induct) (auto simp: set_keep_first)

lemma keep_first_snoc:
  "keep_first (xs @ [x]) = keep_first xs @ (if x \<in> set xs then [] else [x])"
  by (induction xs rule: keep_first.induct) auto

lemma indexOf_from_none:
  "\<forall>y \<in> set xs. \<not> strict_equals y v \<Longrightarrow> indexOf_from (xs @ ys) v k = indexOf_from ys v (k + int (length xs))"
  by (induction xs arbitrary: k) (auto simp: algebra_simps)

lemma indexOf_from_some:
  "\<exists>y \<in> set xs. strict_equals y v \<Longrightarrow> indexOf_from (xs @ ys) v k = indexOf_from xs v k"
  by (induction xs arbitrary: k) auto

lemma indexOf_from_bounds:
  "\<exists>y \<in> set xs. strict_equals y v \<Longrightarrow> k \<le> indexOf_from xs v k \<and> indexOf_from xs v k < k + int (length xs)"
proof (induction xs arbitrary: k)
  case Nil
  then show ?case by simp
next
  case (Cons a xs)
  show ?case
  proof (cases "strict_equals a v")
    case True
    then show ?thesis by simp
  next
    case False
    with Cons.prems have "\<exists>y \<in> set xs. strict_equals y v" by simp
    from Cons.IH [OF this, of "k + 1"] False show ?thesis by simp
  qed
qed

lemma indexOf_from_absent:
  "\<forall>y \<in> set xs. \<not> strict_equals y v \<Longrightarrow> indexOf_from xs v k = - 1"
  by (induction xs arbitrary: k) auto

lemma indexOf_snoc_prefix:
  assumes "v \<in> set xs"
  shows "indexOf (xs @ [x]) v = indexOf xs v"
proof (cases "v = NaN")
  case True
  then have "\<forall>y \<in> set (xs @ [x]). \<not> strict_equals y v" "\<forall>y \<in> set xs. \<not> strict_equals y v"
    by (auto simp: strict_equals_def)
  then show ?thesis
    unfolding indexOf_def by (simp only: indexOf_from_absent)
next
  case False
  with assms have "\<exists>y \<in> set xs. strict_equals y v"
    by (auto simp: strict_equals_def)
  then show ?thesis
    unfolding indexOf_def by (rule indexOf_from_some)
qed

lemma indexOf_snoc_last:
  "indexOf (xs @ [x]) x = int (length xs) \<longleftrightarrow> x \<noteq> NaN \<and> x \<notin> set xs"
proof (cases "\<exists>y \<in> set xs. strict_equals y x")
  case True
  then have "indexOf (xs @ [x]) x = indexOf xs x"
    unfolding indexOf_def by (rule indexOf_from_some)
  moreover from indexOf_from_bounds [OF True, of 0] have "indexOf xs x < int (length xs)"
    by (simp add: indexOf_def)
  moreover from True have "x \<in> set xs" by (auto simp: strict_equals_def)
  ultimately show ?thesis by simp
next
  case False
  then have "indexOf (xs @ [x]) x = indexOf_from [x] x (int (length xs))"
    unfolding indexOf_def using indexOf_from_none [of xs x "[x]" 0] by simp
  moreover from False have "x = NaN \<or> x \<notin> set xs" by (auto simp: strict_equals_def)
  ultimately show ?thesis by (auto simp: strict_equals_def)
qed

lemma first_occurrences_snoc:
  "first_occurrences (xs @ [x]) = first_occurrences xs @ (if x \<noteq> NaN \<and> x \<notin> set xs then [x] else [])"
proof -
  have prefix: "filter (\<lambda>(item, index). indexOf (xs @ [x]) item = int index) (zip xs [0..<length xs])
      = filter (\<lambda>(item, index). indexOf xs item = int index) (zip xs [0..<length xs])"
    by (rule filter_cong) (auto dest: set_zip_leftD simp: indexOf_snoc_prefix)
  show ?thesis
    using indexOf_snoc_last [of xs x]
    by (simp add: first_occurrences_def filter_indexed_def prefix)
qed

lemma first_occurrences_keep_first:
  "first_occurrences xs = keep_first (filter (\<lambda>v. v \<noteq> NaN) xs)"
proof (induction xs rule: rev_induct)
  case Nil
  then show ?case by (simp add: first_occurrences_def filter_indexed_def)
next
  case (snoc x xs)
  then show ?case by (simp add: first_occurrences_snoc keep_first_snoc)
qed

section \<open>The sort\<close>

subsection \<open>The result is a permutation\<close>

lemma mset_insert_into: "mset (insert_into c x ps) = add_mset x (mset ps)"
  by (induction ps) auto

lemma mset_foldl_insert_into:
  "mset (foldl (\<lambda>prefix x. insert_into c x prefix) acc xs) = mset acc + mset xs"
  by (induction xs arbitrary: acc) (auto simp: mset_insert_into)

lemma mset_sort_with: "mset (sort_with c xs) = mset xs"
  by (simp add: sort_with_def mset_foldl_insert_into)

lemma set_sort_with: "set (sort_with c xs) = set xs"
  using mset_sort_with [of c xs] by (metis set_mset_mset)

lemma length_sort_with: "length (sort_with c xs) = length xs"
  using mset_sort_with [of c xs] by (metis size_mset)

lemma distinct_sort_with: "distinct (sort_with c xs) = distinct xs"
  using mset_sort_with [of c xs] by (metis mset_eq_imp_distinct_iff)




subsection \<open>An array in adjacent order is left alone\<close>

lemma foldl_insert_into_ordered:
  "successively (\<lambda>a b. c a b \<le> 0) (rev acc @ xs) \<Longrightarrow>
   foldl (\<lambda>prefix x. insert_into c x prefix) acc xs = rev xs @ acc"
proof (induction xs arbitrary: acc)
  case Nil
  then show ?case by simp
next
  case (Cons x xs)
  have ins: "insert_into c x acc = x # acc"
  proof (cases acc)
    case Nil
    then show ?thesis by simp
  next
    case (Cons p ps)
    with Cons.prems have "c p x \<le> 0"
      by (simp add: successively_append_iff successively_Cons)
    with Cons show ?thesis by simp
  qed
  from Cons.prems have "successively (\<lambda>a b. c a b \<le> 0) (rev (x # acc) @ xs)" by simp
  from Cons.IH [OF this] ins show ?case by simp
qed

lemma sort_with_ordered:
  "successively (\<lambda>a b. c a b \<le> 0) xs \<Longrightarrow> sort_with c xs = xs"
  using foldl_insert_into_ordered [of c "[]" xs] by (simp add: sort_with_def)

subsection \<open>A consistent comparator gives a sorted array\<close>

lemma set_insert_into: "set (insert_into c x ps) = insert x (set ps)"
  by (induction ps) auto

lemma sorted_wrt_insert_into:
  assumes total: "\<And>p. p \<in> set ps \<Longrightarrow> c p x > 0 \<Longrightarrow> c x p \<le> 0"
    and trans: "\<And>p q. p \<in> set ps \<Longrightarrow> q \<in> set ps \<Longrightarrow> c q p \<le> 0 \<Longrightarrow> c p x \<le> 0 \<Longrightarrow> c q x \<le> 0"
    and sorted: "sorted_wrt (\<lambda>b a. c a b \<le> 0) ps"
  shows "sorted_wrt (\<lambda>b a. c a b \<le> 0) (insert_into c x ps)"
  using assms
proof (induction ps)
  case Nil
  then show ?case by simp
next
  case (Cons p ps)
  from Cons.prems(3) have tail: "sorted_wrt (\<lambda>b a. c a b \<le> 0) ps"
    and head: "\<And>q. q \<in> set ps \<Longrightarrow> c q p \<le> 0"
    by simp_all
  show ?case
  proof (cases "c p x > 0")
    case True
    have "sorted_wrt (\<lambda>b a. c a b \<le> 0) (insert_into c x ps)"
    proof (rule Cons.IH)
      show "c x q \<le> 0" if "q \<in> set ps" "c q x > 0" for q
        using Cons.prems(1) [of q] that by simp
      show "c r x \<le> 0" if "q \<in> set ps" "r \<in> set ps" "c r q \<le> 0" "c q x \<le> 0" for q r
        using Cons.prems(2) [of q r] that by simp
      show "sorted_wrt (\<lambda>b a. c a b \<le> 0) ps" by (rule tail)
    qed
    moreover have "c x p \<le> 0" using Cons.prems(1) [of p] True by simp
    ultimately show ?thesis using True head by (simp add: set_insert_into)
  next
    case False
    then have px: "c p x \<le> 0" by simp
    have "c q x \<le> 0" if "q \<in> set ps" for q
      using Cons.prems(2) [of p q] that head [OF that] px by simp
    with px False Cons.prems(3) show ?thesis by simp
  qed
qed

lemma sorted_wrt_foldl_insert_into:
  assumes total: "\<And>p x. p \<in> S \<Longrightarrow> x \<in> S \<Longrightarrow> c p x > 0 \<Longrightarrow> c x p \<le> 0"
    and trans: "\<And>p q x. p \<in> S \<Longrightarrow> q \<in> S \<Longrightarrow> x \<in> S \<Longrightarrow> c q p \<le> 0 \<Longrightarrow> c p x \<le> 0 \<Longrightarrow> c q x \<le> 0"
  shows "set acc \<subseteq> S \<Longrightarrow> set xs \<subseteq> S \<Longrightarrow> sorted_wrt (\<lambda>b a. c a b \<le> 0) acc \<Longrightarrow>
    sorted_wrt (\<lambda>b a. c a b \<le> 0) (foldl (\<lambda>prefix x. insert_into c x prefix) acc xs)"
proof (induction xs arbitrary: acc)
  case Nil
  then show ?case by simp
next
  case (Cons x xs)
  from Cons.prems have xS: "x \<in> S" and accS: "set acc \<subseteq> S" and xsS: "set xs \<subseteq> S"
    by simp_all
  have ins: "sorted_wrt (\<lambda>b a. c a b \<le> 0) (insert_into c x acc)"
  proof (rule sorted_wrt_insert_into)
    show "c x p \<le> 0" if "p \<in> set acc" "c p x > 0" for p
      using total [of p x] that accS xS by blast
    show "c q x \<le> 0" if "p \<in> set acc" "q \<in> set acc" "c q p \<le> 0" "c p x \<le> 0" for p q
      using trans [of p q x] that accS xS by blast
    show "sorted_wrt (\<lambda>b a. c a b \<le> 0) acc" by (rule Cons.prems(3))
  qed
  have sub: "set (insert_into c x acc) \<subseteq> S"
    using accS xS by (simp add: set_insert_into)
  have "sorted_wrt (\<lambda>b a. c a b \<le> 0)
      (foldl (\<lambda>prefix x. insert_into c x prefix) (insert_into c x acc) xs)"
    by (rule Cons.IH [OF sub xsS ins])
  then show ?case by simp
qed

lemma sorted_wrt_sort_with:
  assumes "\<And>p x. p \<in> set xs \<Longrightarrow> x \<in> set xs \<Longrightarrow> c p x > 0 \<Longrightarrow> c x p \<le> 0"
    and "\<And>p q x. p \<in> set xs \<Longrightarrow> q \<in> set xs \<Longrightarrow> x \<in> set xs \<Longrightarrow> c q p \<le> 0 \<Longrightarrow> c p x \<le> 0 \<Longrightarrow> c q x \<le> 0"
  shows "sorted_wrt (\<lambda>a b. c a b \<le> 0) (sort_with c xs)"
proof -
  have "sorted_wrt (\<lambda>b a. c a b \<le> 0) (foldl (\<lambda>prefix x. insert_into c x prefix) [] xs)"
  proof (rule sorted_wrt_foldl_insert_into [where S = "set xs"])
    show "c x p \<le> 0" if "p \<in> set xs" "x \<in> set xs" "c p x > 0" for p x
      using assms(1) [OF that] .
    show "c q x \<le> 0" if "p \<in> set xs" "q \<in> set xs" "x \<in> set xs" "c q p \<le> 0" "c p x \<le> 0" for p q x
      using assms(2) [OF that] .
  qed simp_all
  then show ?thesis by (simp add: sort_with_def sorted_wrt_rev)
qed

section \<open>The sanitizer and the derivation\<close>

text \<open>The comparator, by the \<^verbatim>\<open>typeof\<close> tests of the source.\<close>

lemma compareFn_typeof:
  "compareFn lc a b =
     (if typeof a = T_number \<and> typeof b = T_number
      then (case (a, b) of (Num x, Num y) \<Rightarrow> x - y | _ \<Rightarrow> 0)
      else if typeof a = T_string \<and> typeof b = T_string
      then (case (a, b) of (Str s, Str t) \<Rightarrow> lc s t | _ \<Rightarrow> 0)
      else 0)"
  by (cases a; cases b) simp_all

lemma set_first_occurrences: "set (first_occurrences xs) = set xs - {NaN}"
  by (auto simp: first_occurrences_keep_first set_keep_first)

lemma distinct_first_occurrences: "distinct (first_occurrences xs)"
  by (simp add: first_occurrences_keep_first distinct_keep_first)

lemma filter_not_NaN_Boolean: "filter (\<lambda>v. v \<noteq> NaN) (filter Boolean xs) = filter Boolean xs"
  by (induction xs) auto

lemma first_occurrences_filter_Boolean:
  "first_occurrences (filter Boolean xs) = keep_first (filter Boolean xs)"
  by (simp only: first_occurrences_keep_first filter_not_NaN_Boolean)

lemma mset_sanitizeRowValues:
  "mset (sanitizeRowValues lc xs) = mset (keep_first (filter Boolean xs))"
  by (simp add: sanitizeRowValues_def mset_sort_with first_occurrences_filter_Boolean)

lemma set_sanitizeRowValues: "set (sanitizeRowValues lc xs) = {v \<in> set xs. Boolean v}"
proof -
  have "set (sanitizeRowValues lc xs) = set (keep_first (filter Boolean xs))"
    using mset_sanitizeRowValues [of lc xs] by (metis set_mset_mset)
  then show ?thesis by (simp add: set_keep_first)
qed

lemma distinct_sanitizeRowValues: "distinct (sanitizeRowValues lc xs)"
  using mset_sanitizeRowValues [of lc xs] distinct_keep_first [of "filter Boolean xs"]
  by (metis mset_eq_imp_distinct_iff)

lemma length_map_indexed: "length (map_indexed f xs) = length xs"
  by (simp add: map_indexed_def)

lemma nth_map_indexed: "i < length xs \<Longrightarrow> map_indexed f xs ! i = f (xs ! i) i"
  by (simp add: map_indexed_def)

lemma map_map_indexed:
  "(\<And>x i. g (f x i) = h x) \<Longrightarrow> map g (map_indexed f xs) = map h xs"
  by (rule nth_equalityI) (simp_all add: length_map_indexed nth_map_indexed)

lemma values_derivation:
  "map option_value (derivation lc cid xs) = map String (sanitizeRowValues lc xs)"
  unfolding derivation_def by (rule map_map_indexed) (simp add: to_option_def)

lemma labels_derivation:
  "map option_label (derivation lc cid xs) = map String (sanitizeRowValues lc xs)"
  unfolding derivation_def by (rule map_map_indexed) (simp add: to_option_def)

lemma length_derivation: "length (derivation lc cid xs) = length (sanitizeRowValues lc xs)"
  by (simp add: derivation_def length_map_indexed)

lemma rowValues_input_values: "rowValues lc ctx = sanitizeRowValues lc (input_values ctx)"
  by (simp add: rowValues_def input_values_def split: option.splits)

lemma options_derivation: "options lc ctx = derivation lc (column_id ctx) (input_values ctx)"
  by (simp add: options_def derivation_def rowValues_input_values)

lemma sanitizeRowValues_Nil: "sanitizeRowValues lc [] = []"
  by (simp add: sanitizeRowValues_def first_occurrences_def filter_indexed_def sort_with_def)

lemma derivation_Nil: "derivation lc cid [] = []"
  by (simp add: derivation_def sanitizeRowValues_Nil map_indexed_def)

text \<open>\<open>nat_to_string\<close> prints the decimal numeral: reading the digits back gives the number.\<close>

lemma digit_value_digit: "d < 10 \<Longrightarrow> digit_value (digit d) = d"
proof -
  assume "d < 10"
  then have "d \<in> {0, 1, 2, 3, 4, 5, 6, 7, 8, 9}" by auto
  then show ?thesis by (auto simp: digit_value_def digit_def)
qed

lemma nat_to_string_value:
  "foldl (\<lambda>acc c. 10 * acc + digit_value c) 0 (nat_to_string n) = n"
proof (induction n rule: nat_to_string.induct)
  case (1 n)
  show ?case
  proof (cases "n < 10")
    case True
    then show ?thesis by (subst nat_to_string.simps) (simp add: digit_value_digit)
  next
    case False
    with 1 have "foldl (\<lambda>acc c. 10 * acc + digit_value c) 0 (nat_to_string (n div 10)) = n div 10"
      by simp
    with False show ?thesis
      by (subst nat_to_string.simps) (simp add: digit_value_digit)
  qed
qed



lemma char_code_compare_swap: "char_code_compare b a = - char_code_compare a b"
  by (induction a b rule: char_code_compare.induct) auto

lemma char_code_compare_trans:
  "char_code_compare a b \<le> 0 \<Longrightarrow> char_code_compare b c \<le> 0 \<Longrightarrow> char_code_compare a c \<le> 0"
proof (induction a b arbitrary: c rule: char_code_compare.induct)
  case 1
  then show ?case by simp
next
  case (2 y ys)
  then show ?case by (cases c) simp_all
next
  case (3 x xs)
  then show ?case by simp
next
  case (4 x xs y ys)
  show ?case
  proof (cases c)
    case Nil
    with 4 show ?thesis by simp
  next
    case (Cons z zs)
    from 4(2,3) show ?thesis
      unfolding Cons using "4.IH" [of zs] by (auto split: if_splits)
  qed
qed

lemma consistent_char_code_compare: "consistent_collation char_code_compare"
proof -
  have "char_code_compare b a \<le> 0" if "char_code_compare a b > 0" for a b
    using that char_code_compare_swap [of b a] by simp
  moreover have "char_code_compare a c \<le> 0"
    if "char_code_compare a b \<le> 0 \<and> char_code_compare b c \<le> 0" for a b c
    using that char_code_compare_trans by blast
  ultimately show ?thesis unfolding consistent_collation_def by blast
qed

lemma compareFn_total:
  "consistent_collation lc \<Longrightarrow> compareFn lc p x > 0 \<Longrightarrow> compareFn lc x p \<le> 0"
  by (cases p; cases x) (auto simp: consistent_collation_def)

lemma length_sanitizeRowValues:
  "length (sanitizeRowValues lc ys) = card {v \<in> set ys. Boolean v}"
proof -
  have "card (set (sanitizeRowValues lc ys)) = length (sanitizeRowValues lc ys)"
    by (rule distinct_card) (rule distinct_sanitizeRowValues)
  then show ?thesis by (simp only: set_sanitizeRowValues)
qed

lemma card_truthy_le: "card {v \<in> set ys. Boolean v} \<le> length ys"
proof -
  have "card (set (filter Boolean ys)) \<le> length (filter Boolean ys)"
    by (rule card_length)
  also have "\<dots> \<le> length ys" by (rule length_filter_le)
  finally show ?thesis by simp
qed

lemma Boolean_iff: "Boolean v \<longleftrightarrow> v \<notin> {Undefined, Null, Str [], Num 0, Bool False, NaN}"
  by (cases v) auto

subsection \<open>Evaluation on concrete inputs\<close>

lemmas eval_simps = sanitizeRowValues_def first_occurrences_def filter_indexed_def indexOf_def
  strict_equals_def sort_with_def derivation_def map_indexed_def to_option_def template_def
  int_to_string_def nat_to_string.simps digit_def upt_rec

lemmas context_simps = sample_context_def column_id_def inputType_def externalRowValues_def
  internalRowValues_def rowValues_def input_values_def options_def

lemma rowValues_sample_context:
  "rowValues char_code_compare sample_context = [Str ''closed'', Str ''open'']"
  by (simp add: context_simps eval_simps)

subsection \<open>Sorted results\<close>

lemma set_survivors: "set (first_occurrences (filter Boolean xs)) = {v \<in> set xs. Boolean v}"
  by (auto simp: set_first_occurrences)

lemma sorted_wrt_sanitizeRowValues:
  assumes total: "\<And>p x. p \<in> set xs \<Longrightarrow> Boolean p \<Longrightarrow> x \<in> set xs \<Longrightarrow> Boolean x \<Longrightarrow>
      compareFn lc p x > 0 \<Longrightarrow> compareFn lc x p \<le> 0"
    and trans: "\<And>p q x. p \<in> set xs \<Longrightarrow> Boolean p \<Longrightarrow> q \<in> set xs \<Longrightarrow> Boolean q \<Longrightarrow>
      x \<in> set xs \<Longrightarrow> Boolean x \<Longrightarrow>
      compareFn lc q p \<le> 0 \<Longrightarrow> compareFn lc p x \<le> 0 \<Longrightarrow> compareFn lc q x \<le> 0"
  shows "sorted_wrt (\<lambda>a b. compareFn lc a b \<le> 0) (sanitizeRowValues lc xs)"
  unfolding sanitizeRowValues_def
proof (rule sorted_wrt_sort_with)
  let ?S = "set (first_occurrences (filter Boolean xs))"
  show "compareFn lc x p \<le> 0" if "p \<in> ?S" "x \<in> ?S" "compareFn lc p x > 0" for p x
    using that total [of p x] unfolding set_survivors by simp
  show "compareFn lc q x \<le> 0"
    if "p \<in> ?S" "q \<in> ?S" "x \<in> ?S" "compareFn lc q p \<le> 0" "compareFn lc p x \<le> 0" for p q x
    using that trans [of p q x] unfolding set_survivors by simp
qed

lemma truthy_number: "typeof v = T_number \<Longrightarrow> Boolean v \<Longrightarrow> \<exists>n. v = Num n \<and> n \<noteq> 0"
  by (cases v) auto

lemma truthy_string: "typeof v = T_string \<Longrightarrow> Boolean v \<Longrightarrow> \<exists>s. v = Str s \<and> s \<noteq> []"
  by (cases v) auto

lemma numbers_sorted:
  assumes "\<forall>v \<in> set xs. typeof v = T_number"
  shows "\<exists>ns. sanitizeRowValues lc xs = map Num ns \<and> sorted ns \<and> distinct ns
           \<and> set ns = {n. Num n \<in> set xs \<and> n \<noteq> 0}"
proof -
  have num: "\<exists>n. v = Num n \<and> n \<noteq> 0" if "v \<in> set xs" "Boolean v" for v
    using that assms truthy_number by blast
  have "\<forall>v \<in> set (sanitizeRowValues lc xs). \<exists>n. v = Num n"
    using num by (auto simp: set_sanitizeRowValues)
  then obtain ns where ns: "sanitizeRowValues lc xs = map Num ns"
    using ex_map_conv [of "sanitizeRowValues lc xs" Num] by blast
  have "sorted_wrt (\<lambda>a b. compareFn lc a b \<le> 0) (sanitizeRowValues lc xs)"
  proof (rule sorted_wrt_sanitizeRowValues)
    show "compareFn lc x p \<le> 0"
      if "p \<in> set xs" "Boolean p" "x \<in> set xs" "Boolean x" "compareFn lc p x > 0" for p x
      using num [OF that(1,2)] num [OF that(3,4)] that(5) by auto
    show "compareFn lc q x \<le> 0"
      if "p \<in> set xs" "Boolean p" "q \<in> set xs" "Boolean q" "x \<in> set xs" "Boolean x"
        "compareFn lc q p \<le> 0" "compareFn lc p x \<le> 0" for p q x
      using num [OF that(1,2)] num [OF that(3,4)] num [OF that(5,6)] that(7,8) by auto
  qed
  then have "sorted ns"
    unfolding ns by (simp add: sorted_wrt_map)
  moreover have "distinct ns"
    using distinct_sanitizeRowValues [of lc xs] unfolding ns by (simp add: distinct_map)
  moreover have "set ns = {n. Num n \<in> set xs \<and> n \<noteq> 0}"
  proof -
    have "Num ` set ns = {v \<in> set xs. Boolean v}"
      using set_sanitizeRowValues [of lc xs] unfolding ns by simp
    then have "n \<in> set ns \<longleftrightarrow> Num n \<in> set xs \<and> n \<noteq> 0" for n
      by (metis (mono_tags, lifting) Boolean.simps(4) image_iff mem_Collect_eq raw.inject(2))
    then show ?thesis by blast
  qed
  ultimately show ?thesis using ns by blast
qed

lemma strings_sorted:
  assumes "consistent_collation lc" and "\<forall>v \<in> set xs. typeof v = T_string"
  shows "\<exists>ss. sanitizeRowValues lc xs = map Str ss \<and> sorted_wrt (\<lambda>s t. lc s t \<le> 0) ss \<and> distinct ss
           \<and> set ss = {s. Str s \<in> set xs \<and> s \<noteq> []}"
proof -
  have str: "\<exists>s. v = Str s \<and> s \<noteq> []" if "v \<in> set xs" "Boolean v" for v
    using that assms(2) truthy_string by blast
  have "\<forall>v \<in> set (sanitizeRowValues lc xs). \<exists>s. v = Str s"
    using str by (auto simp: set_sanitizeRowValues)
  then obtain ss where ss: "sanitizeRowValues lc xs = map Str ss"
    using ex_map_conv [of "sanitizeRowValues lc xs" Str] by blast
  have t: "lc a c \<le> 0" if "lc a b \<le> 0" "lc b c \<le> 0" for a b c
    using assms(1) that unfolding consistent_collation_def by blast
  have "sorted_wrt (\<lambda>a b. compareFn lc a b \<le> 0) (sanitizeRowValues lc xs)"
  proof (rule sorted_wrt_sanitizeRowValues)
    show "compareFn lc x p \<le> 0"
      if "p \<in> set xs" "Boolean p" "x \<in> set xs" "Boolean x" "compareFn lc p x > 0" for p x
      using compareFn_total [OF assms(1) that(5)] .
    show "compareFn lc q x \<le> 0"
      if "p \<in> set xs" "Boolean p" "q \<in> set xs" "Boolean q" "x \<in> set xs" "Boolean x"
        "compareFn lc q p \<le> 0" "compareFn lc p x \<le> 0" for p q x
      using str [OF that(1,2)] str [OF that(3,4)] str [OF that(5,6)] that(7,8) t by auto
  qed
  then have "sorted_wrt (\<lambda>s t. lc s t \<le> 0) ss"
    unfolding ss by (simp add: sorted_wrt_map)
  moreover have "distinct ss"
    using distinct_sanitizeRowValues [of lc xs] unfolding ss by (simp add: distinct_map)
  moreover have "set ss = {s. Str s \<in> set xs \<and> s \<noteq> []}"
  proof -
    have "Str ` set ss = {v \<in> set xs. Boolean v}"
      using set_sanitizeRowValues [of lc xs] unfolding ss by simp
    then have "s \<in> set ss \<longleftrightarrow> Str s \<in> set xs \<and> s \<noteq> []" for s
      by (metis (mono_tags, lifting) Boolean.simps(6) image_iff mem_Collect_eq raw.inject(3))
    then show ?thesis by blast
  qed
  ultimately show ?thesis using ss by blast
qed

lemma numbers_example:
  "map option_value (derivation lc cid [Num 3, Num 1, Num 2]) = [''1'', ''2'', ''3'']"
  by (simp add: eval_simps)

lemma strings_example:
  "lc ''banana'' ''apple'' > 0 \<Longrightarrow>
     map option_value (derivation lc cid [Str ''banana'', Str ''apple'']) = [''apple'', ''banana'']"
  by (simp add: eval_simps)

subsection \<open>Mixed sequences\<close>

lemma compareFn_mixed: "typeof v \<noteq> typeof w \<Longrightarrow> compareFn lc v w = 0"
  by (cases v; cases w) simp_all


lemma compareFn_same_type_trans:
  assumes "consistent_collation lc"
    and "typeof q = typeof p" "typeof p = typeof x"
    and "compareFn lc q p \<le> 0" "compareFn lc p x \<le> 0"
    and "Boolean p"
  shows "compareFn lc q x \<le> 0"
proof (cases p)
  case (Num b)
  with assms(2,3) obtain a c where "q = Num a \<or> q = NaN" "x = Num c \<or> x = NaN"
    by (cases q; cases x) simp_all
  with Num assms(4,5) show ?thesis by auto
next
  case (Str b)
  with assms(2,3) obtain a c where qx: "q = Str a" "x = Str c"
    by (cases q; cases x) simp_all
  from assms(4,5) have "lc a b \<le> 0 \<and> lc b c \<le> 0"
    unfolding Str qx by simp
  with assms(1) have "lc a c \<le> 0"
    unfolding consistent_collation_def by blast
  then show ?thesis unfolding qx by simp
next
  case Undefined
  with assms(2) show ?thesis by (cases q) simp_all
next
  case Null
  with assms(2) show ?thesis by (cases q) simp_all
next
  case (Bool b)
  with assms(2) show ?thesis by (cases q) simp_all
next
  case NaN
  with assms(6) show ?thesis by simp
qed

lemma one_type_sorted:
  assumes "consistent_collation lc"
    and "\<forall>v \<in> set (filter Boolean xs). \<forall>w \<in> set (filter Boolean xs). typeof v = typeof w"
  shows "same_type_pairs_ordered lc (sanitizeRowValues lc xs)"
proof -
  have same: "typeof v = typeof w" if "v \<in> set xs" "Boolean v" "w \<in> set xs" "Boolean w" for v w
  proof -
    from that have "v \<in> set (filter Boolean xs)" "w \<in> set (filter Boolean xs)"
      by simp_all
    with assms(2) show ?thesis by blast
  qed
  have "sorted_wrt (\<lambda>a b. compareFn lc a b \<le> 0) (sanitizeRowValues lc xs)"
  proof (rule sorted_wrt_sanitizeRowValues)
    show "compareFn lc x p \<le> 0"
      if "p \<in> set xs" "Boolean p" "x \<in> set xs" "Boolean x" "compareFn lc p x > 0" for p x
      using compareFn_total [OF assms(1) that(5)] .
    show "compareFn lc q x \<le> 0"
      if "p \<in> set xs" "Boolean p" "q \<in> set xs" "Boolean q" "x \<in> set xs" "Boolean x"
        "compareFn lc q p \<le> 0" "compareFn lc p x \<le> 0" for p q x
    proof (rule compareFn_same_type_trans [OF assms(1) _ _ that(7,8) that(2)])
      show "typeof q = typeof p" using same [OF that(3,4) that(1,2)] .
      show "typeof p = typeof x" using same [OF that(1,2) that(5,6)] .
    qed
  qed
  then show ?thesis
    unfolding same_type_pairs_ordered_def by (rule sorted_wrt_mono_rel [rotated]) simp
qed

lemma sorted_wrt_distinct:
  "distinct ys \<Longrightarrow> (\<And>a b. a \<in> set ys \<Longrightarrow> b \<in> set ys \<Longrightarrow> a \<noteq> b \<Longrightarrow> R a b) \<Longrightarrow> sorted_wrt R ys"
  by (induction ys) auto

lemma all_types_differ_unchanged:
  assumes "\<forall>v \<in> set (filter Boolean xs). \<forall>w \<in> set (filter Boolean xs). v \<noteq> w \<longrightarrow> typeof v \<noteq> typeof w"
  shows "sanitizeRowValues lc xs = first_occurrences (filter Boolean xs)"
proof -
  let ?ys = "first_occurrences (filter Boolean xs)"
  have "sorted_wrt (\<lambda>a b. compareFn lc a b \<le> 0) ?ys"
  proof (rule sorted_wrt_distinct)
    show "distinct ?ys" by (rule distinct_first_occurrences)
    show "compareFn lc a b \<le> 0" if "a \<in> set ?ys" "b \<in> set ?ys" "a \<noteq> b" for a b
    proof -
      from that(1,2) have "a \<in> set (filter Boolean xs)" "b \<in> set (filter Boolean xs)"
        by (simp_all add: set_survivors)
      with assms that(3) have "typeof a \<noteq> typeof b" by blast
      then show ?thesis by (simp add: compareFn_mixed)
    qed
  qed
  then have "successively (\<lambda>a b. compareFn lc a b \<le> 0) ?ys"
    by (rule successively_if_sorted_wrt)
  then show ?thesis
    unfolding sanitizeRowValues_def by (rule sort_with_ordered)
qed

subsection \<open>External options\<close>

lemma externalRowValues_rows_update [simp]:
  "externalRowValues (ctx\<lparr>rows := rs\<rparr>) = externalRowValues ctx"
  by (simp add: externalRowValues_def)

lemma column_id_rows_update [simp]: "column_id (ctx\<lparr>rows := rs\<rparr>) = column_id ctx"
  by (simp add: column_id_def)

lemma input_values_external:
  "externalRowValues ctx = Some ext \<Longrightarrow> ext \<noteq> [] \<Longrightarrow> input_values ctx = map Str ext"
  by (simp add: input_values_def)

lemma options_external:
  assumes "externalRowValues ctx = Some ext" and "ext \<noteq> []"
  shows "options lc ctx = derivation lc (column_id ctx) (map Str ext)"
  by (simp add: options_derivation input_values_external [OF assms])

lemma options_external_rows:
  assumes "externalRowValues ctx = Some ext" and "ext \<noteq> []"
  shows "options lc (ctx\<lparr>rows := rs\<rparr>) = options lc ctx"
  using options_external [of ctx ext lc] options_external [of "ctx\<lparr>rows := rs\<rparr>" ext lc] assms
  by simp

lemma derivation_b_a_b:
  assumes "lc ''b'' ''a'' > 0"
  shows "derivation lc cid [Str ''b'', Str ''a'', Str ''b''] =
    [\<lparr> option_id = template cid @ ''-choice-0'', option_label = ''a'', option_value = ''a'' \<rparr>,
     \<lparr> option_id = template cid @ ''-choice-1'', option_label = ''b'', option_value = ''b'' \<rparr>]"
  using assms
  by (simp add: sanitizeRowValues_def first_occurrences_def filter_indexed_def indexOf_def
      strict_equals_def sort_with_def derivation_def map_indexed_def to_option_def
      nat_to_string.simps digit_def upt_rec)

subsection \<open>Sanitizing twice\<close>





section \<open>Properties of the option-set derivation\<close>

text \<open>
  Claim C1. For every input sequence the derivation removes exactly the falsy values.
  A value is falsy when \<^verbatim>\<open>Boolean\<close> gives false for it: \<^verbatim>\<open>undefined\<close>, \<^verbatim>\<open>null\<close>, the empty
  string, \<open>0\<close>, \<^verbatim>\<open>false\<close>, and \<open>NaN\<close>. The first \<^verbatim>\<open>filter\<close> keeps exactly the truthy values
  of the input; the sanitized values are again exactly the truthy values of the input,
  so no falsy value is among them and every truthy one is; and the values of the
  derived options are the string forms of the sanitized values, one for one.
\<close>

theorem falsy_values_removed:
  "(Boolean v \<longleftrightarrow> v \<notin> {Undefined, Null, Str [], Num 0, Bool False, NaN})
   \<and> set (filter Boolean xs) = {v \<in> set xs. Boolean v}
   \<and> set (sanitizeRowValues lc xs) = {v \<in> set xs. Boolean v}
   \<and> map option_value (derivation lc cid xs) = map String (sanitizeRowValues lc xs)"
  using Boolean_iff [of v] set_sanitizeRowValues [of lc xs] values_derivation [of lc cid xs]
  by simp

text \<open>
  Claim C2. The deduplication keeps the first occurrence of each distinct raw value and
  compares raw values by strict equality, before any conversion to strings: the second
  \<^verbatim>\<open>filter\<close> computes \<open>keep_first\<close> (of the values other than \<open>NaN\<close>, which is never
  strictly equal to anything), the sanitized values are a permutation of the first
  occurrences of the truthy input values, and no raw value occurs twice among them.
  Consequently, when the surviving raw values are pairwise distinct after conversion to
  strings, no two derived options have the same value.
\<close>

theorem first_occurrence_deduplication:
  "first_occurrences xs = keep_first (filter (\<lambda>v. v \<noteq> NaN) xs)
   \<and> mset (sanitizeRowValues lc xs) = mset (keep_first (filter Boolean xs))
   \<and> distinct (sanitizeRowValues lc xs)
   \<and> (distinct (map String (first_occurrences (filter Boolean xs)))
        \<longrightarrow> distinct (map option_value (derivation lc cid xs)))"
proof -
  have "distinct (map option_value (derivation lc cid xs))"
    if "distinct (map String (first_occurrences (filter Boolean xs)))"
  proof -
    have "mset (map String (sanitizeRowValues lc xs))
        = mset (map String (first_occurrences (filter Boolean xs)))"
      by (simp add: sanitizeRowValues_def mset_sort_with)
    with that have "distinct (map String (sanitizeRowValues lc xs))"
      by (metis mset_eq_imp_distinct_iff)
    then show ?thesis by (simp add: values_derivation)
  qed
  then show ?thesis
    using first_occurrences_keep_first [of xs] mset_sanitizeRowValues [of lc xs]
      distinct_sanitizeRowValues [of lc xs]
    by blast
qed

theorem first_occurrence_deduplication_witness:
  "distinct (map String (first_occurrences (filter Boolean [Num 1, Str ''a'', Num 1, Null, Str ''a''])))
   \<and> distinct (map option_value
        (derivation char_code_compare (Some ''c'') [Num 1, Str ''a'', Num 1, Null, Str ''a'']))"
proof -
  have h: "distinct (map String (first_occurrences (filter Boolean [Num 1, Str ''a'', Num 1, Null, Str ''a''])))"
    by (simp add: eval_simps)
  with first_occurrence_deduplication [of "[Num 1, Str ''a'', Num 1, Null, Str ''a'']"
      char_code_compare "Some ''c''"]
  show ?thesis by blast
qed

text \<open>
  Claim C3. In the sort step two numbers are compared by their difference, so in
  ascending numeric order, and two strings by \<^verbatim>\<open>localeCompare\<close>. A sequence of numbers
  alone is therefore returned in ascending numeric order, and a sequence of strings alone
  in ascending order of a consistent collation; each result holds every truthy value of
  the input once. The numbers \<open>3, 1, 2\<close> give the option values \<open>1, 2, 3\<close>, and
  \<^verbatim>\<open>banana\<close>, \<^verbatim>\<open>apple\<close> give \<^verbatim>\<open>apple\<close>, \<^verbatim>\<open>banana\<close> under every collation that puts
  \<^verbatim>\<open>apple\<close> first.
\<close>

theorem same_type_values_sorted:
  "compareFn lc (Num a) (Num b) = a - b
   \<and> compareFn lc (Str s) (Str t) = lc s t
   \<and> ((\<forall>v \<in> set xs. typeof v = T_number) \<longrightarrow>
        (\<exists>ns. sanitizeRowValues lc xs = map Num ns \<and> sorted ns \<and> distinct ns
           \<and> set ns = {n. Num n \<in> set xs \<and> n \<noteq> 0}))
   \<and> (consistent_collation lc \<and> (\<forall>v \<in> set ys. typeof v = T_string) \<longrightarrow>
        (\<exists>ss. sanitizeRowValues lc ys = map Str ss \<and> sorted_wrt (\<lambda>s t. lc s t \<le> 0) ss \<and> distinct ss
           \<and> set ss = {s. Str s \<in> set ys \<and> s \<noteq> []}))
   \<and> map option_value (derivation lc cid [Num 3, Num 1, Num 2]) = [''1'', ''2'', ''3'']
   \<and> (lc ''apple'' ''banana'' < 0 \<and> lc ''banana'' ''apple'' > 0 \<longrightarrow>
        map option_value (derivation lc cid [Str ''banana'', Str ''apple'']) = [''apple'', ''banana''])"
  using numbers_sorted [of xs lc] strings_sorted [of lc ys] numbers_example [of lc cid]
    strings_example [of lc cid]
  by simp

theorem same_type_values_sorted_witness:
  "consistent_collation char_code_compare
   \<and> char_code_compare ''apple'' ''banana'' < 0
   \<and> char_code_compare ''banana'' ''apple'' > 0
   \<and> (\<exists>ns. sanitizeRowValues char_code_compare [Num 3, Num 0, Num 1, Num 3, Num 2] = map Num ns
         \<and> sorted ns \<and> distinct ns
         \<and> set ns = {n. Num n \<in> set [Num 3, Num 0, Num 1, Num 3, Num 2] \<and> n \<noteq> 0})
   \<and> (\<exists>ss. sanitizeRowValues char_code_compare [Str ''pear'', Str [], Str ''fig'', Str ''pear''] = map Str ss
         \<and> sorted_wrt (\<lambda>s t. char_code_compare s t \<le> 0) ss \<and> distinct ss
         \<and> set ss = {s. Str s \<in> set [Str ''pear'', Str [], Str ''fig'', Str ''pear''] \<and> s \<noteq> []})
   \<and> map option_value (derivation char_code_compare (Some ''c'') [Str ''banana'', Str ''apple''])
       = [''apple'', ''banana'']"
proof -
  have n: "\<forall>v \<in> set [Num 3, Num 0, Num 1, Num 3, Num 2]. typeof v = T_number"
    by simp
  have s: "\<forall>v \<in> set [Str ''pear'', Str [], Str ''fig'', Str ''pear'']. typeof v = T_string"
    by simp
  have c: "char_code_compare ''apple'' ''banana'' < 0" "char_code_compare ''banana'' ''apple'' > 0"
    by simp_all
  from same_type_values_sorted [of char_code_compare _ _ _ _ "[Num 3, Num 0, Num 1, Num 3, Num 2]"
      "[Str ''pear'', Str [], Str ''fig'', Str ''pear'']" "Some ''c''"]
    n s c consistent_char_code_compare
  show ?thesis by blast
qed

text \<open>
  Claim C4 as stated, that in a mixed sequence every two values of one type end up in
  order, fails:
  for the input \<open>2, a, 1\<close> every comparison the sort makes is between a number and a
  string, nothing moves, and \<open>2\<close> stays before \<open>1\<close>. The same happens to \<open>2, a, b, 1\<close>,
  where the one comparison of two values of a type finds \<open>a\<close> and \<open>b\<close> in order.
\<close>

theorem mixed_types_counterexample:
  "sanitizeRowValues char_code_compare [Num 2, Str ''a'', Num 1] = [Num 2, Str ''a'', Num 1]
   \<and> \<not> same_type_pairs_ordered char_code_compare
         (sanitizeRowValues char_code_compare [Num 2, Str ''a'', Num 1])
   \<and> map option_value (derivation char_code_compare (Some ''c'') [Num 2, Str ''a'', Num 1])
       = [''2'', ''a'', ''1'']
   \<and> sanitizeRowValues char_code_compare [Num 2, Str ''a'', Str ''b'', Num 1]
       = [Num 2, Str ''a'', Str ''b'', Num 1]
   \<and> \<not> same_type_pairs_ordered char_code_compare
         (sanitizeRowValues char_code_compare [Num 2, Str ''a'', Str ''b'', Num 1])"
  by (simp add: eval_simps same_type_pairs_ordered_def)

text \<open>
  Claim C4, amended. For every input sequence, comparing two values of differing types
  gives \<open>0\<close>, so no order between them is promised, and the sort only permutes the
  deduplicated truthy values. A sequence whose surviving values all differ in type keeps
  its order. Every two values of one type are in the order of the comparator when all
  surviving values have one type, under a consistent collation; in a sequence that mixes
  types two values of one type can stay out of order.
\<close>

theorem mixed_types_compare_equal:
  "(typeof v \<noteq> typeof w \<longrightarrow> compareFn lc v w = 0)
   \<and> mset (sanitizeRowValues lc xs) = mset (first_occurrences (filter Boolean xs))
   \<and> ((\<forall>a \<in> set (filter Boolean xs). \<forall>b \<in> set (filter Boolean xs).
          a \<noteq> b \<longrightarrow> typeof a \<noteq> typeof b) \<longrightarrow>
        sanitizeRowValues lc xs = first_occurrences (filter Boolean xs))
   \<and> (consistent_collation lc
        \<and> (\<forall>a \<in> set (filter Boolean ys). \<forall>b \<in> set (filter Boolean ys). typeof a = typeof b) \<longrightarrow>
        same_type_pairs_ordered lc (sanitizeRowValues lc ys))"
proof -
  have "mset (sanitizeRowValues lc xs) = mset (first_occurrences (filter Boolean xs))"
    by (simp add: sanitizeRowValues_def mset_sort_with)
  then show ?thesis
    using compareFn_mixed [of v w lc] all_types_differ_unchanged [of xs lc]
      one_type_sorted [of lc ys]
    by blast
qed

theorem mixed_types_compare_equal_witness:
  "typeof (Num 2) \<noteq> typeof (Str ''a'')
   \<and> compareFn char_code_compare (Num 2) (Str ''a'') = 0
   \<and> sanitizeRowValues char_code_compare [Str ''x'', Null, Num 5, Bool True, Num 5]
       = first_occurrences (filter Boolean [Str ''x'', Null, Num 5, Bool True, Num 5])
   \<and> first_occurrences (filter Boolean [Str ''x'', Null, Num 5, Bool True, Num 5])
       = [Str ''x'', Num 5, Bool True]
   \<and> consistent_collation char_code_compare
   \<and> same_type_pairs_ordered char_code_compare
        (sanitizeRowValues char_code_compare [Num 2, Null, Num 1])"
proof -
  have t: "typeof (Num 2) \<noteq> typeof (Str ''a'')" by simp
  have d: "\<forall>a \<in> set (filter Boolean [Str ''x'', Null, Num 5, Bool True, Num 5]).
      \<forall>b \<in> set (filter Boolean [Str ''x'', Null, Num 5, Bool True, Num 5]).
        a \<noteq> b \<longrightarrow> typeof a \<noteq> typeof b"
    by simp
  have o: "\<forall>a \<in> set (filter Boolean [Num 2, Null, Num 1]).
      \<forall>b \<in> set (filter Boolean [Num 2, Null, Num 1]). typeof a = typeof b"
    by simp
  have f: "first_occurrences (filter Boolean [Str ''x'', Null, Num 5, Bool True, Num 5])
       = [Str ''x'', Num 5, Bool True]"
    by (simp add: eval_simps)
  from mixed_types_compare_equal [of "Num 2" "Str ''a''" char_code_compare
      "[Str ''x'', Null, Num 5, Bool True, Num 5]" "[Num 2, Null, Num 1]"]
    t d o f consistent_char_code_compare
  show ?thesis by blast
qed

text \<open>
  Claim C5. Whenever the external \<^verbatim>\<open>filterOptions\<close> list is non-empty, the options are
  derived from it alone: they are the derivation of the external values, and replacing
  the rows of the context by any others leaves them unchanged. The external options
  \<open>b, a, b\<close> give exactly the two options \<open>a\<close> and \<open>b\<close>, in that order, whatever the
  rows hold, under every collation that puts \<open>a\<close> before \<open>b\<close>.
\<close>

theorem external_options_take_precedence:
  "(externalRowValues ctx = Some ext \<and> ext \<noteq> [] \<longrightarrow>
      options lc ctx = derivation lc (column_id ctx) (map Str ext)
      \<and> options lc (ctx\<lparr>rows := rs\<rparr>) = options lc ctx)
   \<and> (externalRowValues ctx = Some [''b'', ''a'', ''b''] \<and> lc ''a'' ''b'' < 0 \<and> lc ''b'' ''a'' > 0 \<longrightarrow>
      options lc (ctx\<lparr>rows := rs\<rparr>) =
        [\<lparr> option_id = template (column_id ctx) @ ''-choice-0'', option_label = ''a'', option_value = ''a'' \<rparr>,
         \<lparr> option_id = template (column_id ctx) @ ''-choice-1'', option_label = ''b'', option_value = ''b'' \<rparr>])"
proof -
  have "options lc (ctx\<lparr>rows := rs\<rparr>) =
        [\<lparr> option_id = template (column_id ctx) @ ''-choice-0'', option_label = ''a'', option_value = ''a'' \<rparr>,
         \<lparr> option_id = template (column_id ctx) @ ''-choice-1'', option_label = ''b'', option_value = ''b'' \<rparr>]"
    if e: "externalRowValues ctx = Some [''b'', ''a'', ''b'']" and l: "lc ''b'' ''a'' > 0"
  proof -
    have "options lc (ctx\<lparr>rows := rs\<rparr>) = options lc ctx"
      by (rule options_external_rows [OF e]) simp
    also have "\<dots> = derivation lc (column_id ctx) (map Str [''b'', ''a'', ''b''])"
      by (rule options_external [OF e]) simp
    finally show ?thesis using derivation_b_a_b [of lc "column_id ctx", OF l] by simp
  qed
  then show ?thesis
    using options_external [of ctx ext lc] options_external_rows [of ctx ext lc rs] by blast
qed

theorem external_options_take_precedence_witness:
  "externalRowValues external_context = Some [''b'', ''a'', ''b'']
   \<and> [''b'', ''a'', ''b''] \<noteq> []
   \<and> char_code_compare ''a'' ''b'' < 0 \<and> char_code_compare ''b'' ''a'' > 0
   \<and> options char_code_compare (external_context\<lparr>rows := Some [\<lambda>c. Str ''zebra'']\<rparr>)
       = options char_code_compare external_context
   \<and> options char_code_compare (external_context\<lparr>rows := Some [\<lambda>c. Str ''zebra'']\<rparr>) =
        [\<lparr> option_id = ''status-choice-0'', option_label = ''a'', option_value = ''a'' \<rparr>,
         \<lparr> option_id = ''status-choice-1'', option_label = ''b'', option_value = ''b'' \<rparr>]"
proof -
  have e: "externalRowValues external_context = Some [''b'', ''a'', ''b'']"
    by (simp add: externalRowValues_def external_context_def)
  have n: "[''b'', ''a'', ''b''] \<noteq> []" by simp
  have c: "char_code_compare ''a'' ''b'' < 0" "char_code_compare ''b'' ''a'' > 0" by simp_all
  have i: "template (column_id external_context) = ''status''"
    by (simp add: template_def column_id_def external_context_def)
  from external_options_take_precedence [of external_context "[''b'', ''a'', ''b'']"
      char_code_compare "Some [\<lambda>c. Str ''zebra'']"] e n c
  have "options char_code_compare (external_context\<lparr>rows := Some [\<lambda>c. Str ''zebra'']\<rparr>)
       = options char_code_compare external_context"
    and "options char_code_compare (external_context\<lparr>rows := Some [\<lambda>c. Str ''zebra'']\<rparr>) =
        [\<lparr> option_id = template (column_id external_context) @ ''-choice-0'', option_label = ''a'', option_value = ''a'' \<rparr>,
         \<lparr> option_id = template (column_id external_context) @ ''-choice-1'', option_label = ''b'', option_value = ''b'' \<rparr>]"
    by blast+
  with e n c i show ?thesis by simp
qed




text \<open>
  Claim C7. The surviving value at position \<open>i\<close> of the final sorted sequence becomes
  the option at position \<open>i\<close>; its identifier is the column id, \<^verbatim>\<open>-choice-\<close> and the
  decimal numeral of \<open>i\<close>; its label and its value are both the string form of the raw
  value. There is one option for each surviving value.
\<close>

theorem option_projection:
  assumes "column_id ctx = Some cid" and "i < length (rowValues lc ctx)"
  shows "options lc ctx ! i =
           \<lparr> option_id = cid @ ''-choice-'' @ nat_to_string i,
             option_label = String (rowValues lc ctx ! i),
             option_value = String (rowValues lc ctx ! i) \<rparr>
         \<and> length (options lc ctx) = length (rowValues lc ctx)"
  using assms
  by (simp add: options_def nth_map_indexed length_map_indexed to_option_def template_def)

theorem option_projection_witness:
  "column_id sample_context = Some ''status''
   \<and> 1 < length (rowValues char_code_compare sample_context)
   \<and> options char_code_compare sample_context ! 1 =
         \<lparr> option_id = ''status-choice-1'', option_label = ''open'', option_value = ''open'' \<rparr>
   \<and> length (options char_code_compare sample_context) = 2"
proof -
  have c: "column_id sample_context = Some ''status''"
    by (simp add: context_simps)
  have l: "1 < length (rowValues char_code_compare sample_context)"
    by (simp add: rowValues_sample_context)
  from option_projection [OF c l] c l show ?thesis
    by (simp add: rowValues_sample_context nat_to_string.simps digit_def)
qed

text \<open>
  Claim C8. The derivation is a total function of the input sequence: it has no error
  result, every recursion in it terminates, and for every input it returns a list with
  one option for each distinct truthy value of the input. The empty sequence gives the
  empty list of options, and the component never shows more options than it was given
  values.
\<close>

theorem derivation_total:
  "derivation lc cid [] = []
   \<and> length (derivation lc cid xs) = card {v \<in> set xs. Boolean v}
   \<and> length (options lc ctx) \<le> length (input_values ctx)"
  using card_truthy_le [of "input_values ctx"]
  by (simp add: derivation_Nil length_derivation options_derivation length_sanitizeRowValues)

section \<open>Properties of the form handlers\<close>

text \<open>
  Claim C9. The form has two events, submit and reset, and each has one outcome, with no
  condition on the form state. With a column and a \<^verbatim>\<open>setOpen\<close> callback in the context,
  submitting passes the selection of the active field to \<^verbatim>\<open>setFilterValue\<close> when that
  selection is non-empty, and the empty string when it is absent, an empty string or an
  empty array; then it asks the popup to close. Resetting passes the empty string and
  asks the popup to close.
\<close>

theorem submit_and_reset:
  assumes "column ctx = Some c" and "setOpen ctx"
  shows "handle ctx vs Submit =
           [SetFilterValue
              (if field_of vs (fieldName ctx) \<in> {NoValue, OneValue [], ManyValues []}
               then OneValue [] else field_of vs (fieldName ctx)),
            SetOpen False]
         \<and> handle ctx vs Reset = [SetFilterValue (OneValue []), SetOpen False]
         \<and> (ev = Submit \<or> ev = Reset)"
proof -
  have "has_length v \<longleftrightarrow> v \<notin> {NoValue, OneValue [], ManyValues []}" for v
    by (cases v) auto
  with assms show ?thesis
    by (cases ev) (simp_all add: onSubmit_def onReset_def setFilterValue_def call_setOpen_def)
qed

theorem submit_and_reset_witness:
  "column sample_context = Some \<lparr> columnDef_id = Some ''status'', filterFn = Some ''select'', meta = None \<rparr>
   \<and> setOpen sample_context
   \<and> handle sample_context \<lparr> values_inputType = Some ''select'', selectFilter = OneValue ''open'', multiSelectFilter = NoValue \<rparr> Submit
       = [SetFilterValue (OneValue ''open''), SetOpen False]
   \<and> handle sample_context \<lparr> values_inputType = Some ''select'', selectFilter = NoValue, multiSelectFilter = ManyValues [''open''] \<rparr> Submit
       = [SetFilterValue (OneValue []), SetOpen False]
   \<and> handle sample_context \<lparr> values_inputType = Some ''select'', selectFilter = OneValue ''open'', multiSelectFilter = NoValue \<rparr> Reset
       = [SetFilterValue (OneValue []), SetOpen False]"
proof -
  have c: "column sample_context = Some \<lparr> columnDef_id = Some ''status'', filterFn = Some ''select'', meta = None \<rparr>"
    by (simp add: sample_context_def)
  have s: "setOpen sample_context"
    by (simp add: sample_context_def)
  have f: "fieldName sample_context = SelectFilter"
    by (simp add: fieldName_def context_simps)
  from submit_and_reset [OF c s, of "\<lparr> values_inputType = Some ''select'', selectFilter = OneValue ''open'', multiSelectFilter = NoValue \<rparr>" Submit]
    submit_and_reset [OF c s, of "\<lparr> values_inputType = Some ''select'', selectFilter = NoValue, multiSelectFilter = ManyValues [''open''] \<rparr>" Submit]
    c s f
  show ?thesis by simp
qed

section \<open>Properties of the TextField flags\<close>

lemma isInvalid_iff:
  "isInvalid props = (invalid props = Some True \<or> helper_type_of props = Some ''error'')"
  by (simp add: isInvalid_def split: option.splits bool.splits)

lemma isValid_iff:
  "isValid props = (invalid props \<noteq> Some True \<and> helper_type_of props = Some ''valid'')"
  by (simp add: isValid_def split: option.splits bool.splits)

text \<open>
  Claim C10. For all props, \<open>isInvalid\<close> holds exactly when the \<^verbatim>\<open>invalid\<close> prop is set
  (is \<^verbatim>\<open>true\<close>) or the helper's type is \<^verbatim>\<open>'error'\<close>; \<open>isValid\<close> holds exactly when the
  \<^verbatim>\<open>invalid\<close> prop is not set (is \<^verbatim>\<open>false\<close> or absent) and the helper's type is
  \<^verbatim>\<open>'valid'\<close>; and the two flags are never both true.
\<close>

theorem validity_flags_exclusive:
  "isInvalid props = (invalid props = Some True \<or> helper_type_of props = Some ''error'')
   \<and> isValid props = (invalid props \<noteq> Some True \<and> helper_type_of props = Some ''valid'')
   \<and> \<not> (isInvalid props \<and> isValid props)"
proof -
  have "\<not> (isInvalid props \<and> isValid props)"
    by (auto simp: isInvalid_iff isValid_iff)
  then show ?thesis
    using isInvalid_iff [of props] isValid_iff [of props] by blast
qed

end
